theory Spec2Isabelle
  imports Main "HOL-Library.Word" "HOL-Library.Monad_Syntax"
begin

section \<open>The request line of an HTTP request: data model\<close>

text \<open>
  The development follows \<^verbatim>\<open>src/inc/request_line.hpp\<close>. A buffer
  (\<^verbatim>\<open>std::experimental::string_view\<close>) is a \<^typ>\<open>string\<close>, a list of 8-bit
  characters. The headers \<^verbatim>\<open>methods.hpp\<close>, \<^verbatim>\<open>version.hpp\<close> and
  \<^verbatim>\<open>common.hpp\<close> are included by the source but are not part of the sources at
  hand; what they provide is modelled from the specification and marked as such.
\<close>

abbreviation (input) CR :: char where "CR \<equiv> CHR 0x0D"
abbreviation (input) LF :: char where "LF \<equiv> CHR 0x0A"
abbreviation (input) CRLF :: string where "CRLF \<equiv> [CR, LF]"

text \<open>
  Modelled from the spec: the enumeration \<^verbatim>\<open>Method\<close> of \<^verbatim>\<open>methods.hpp\<close>,
  a closed set of eight request methods.
\<close>

datatype Method = GET | POST | PUT | DELETE | OPTIONS | HEAD | TRACE | CONNECT

text \<open>
  Modelled from the spec: the class \<^verbatim>\<open>Version\<close> of \<^verbatim>\<open>version.hpp\<close>, a pair of
  \<^verbatim>\<open>unsigned\<close> numbers (32 bits wide).
\<close>

record Version =
  major :: "32 word"
  minor :: "32 word"

text \<open>
  Modelled from the spec: the type \<^verbatim>\<open>URI\<close>, an opaque holder of the target token,
  constructed from the matched text and written to a stream verbatim.
\<close>

type_synonym URI = string

text \<open>
  The data members of \<^verbatim>\<open>class Request_line\<close> (lines 154 to 156). The source
  names them with a trailing underscore, which a name cannot end with here: the member
  \<^verbatim>\<open>method_\<close> is \<open>method_m\<close>, and so on.
\<close>

record Request_line =
  method_m :: Method
  uri_m :: URI
  version_m :: Version

text \<open>
  The errors a construction can end with. The source throws
  \<^verbatim>\<open>Request_line_error\<close> at three places (lines 175, 190 and 203), and the
  decoders it calls throw on their own; the names are those of the specification's
  error taxonomy:
  \<^item> \<open>InputTooShort\<close>: line 175, \<^verbatim>\<open>"Invalid request: ..."\<close>;
  \<^item> \<open>MissingLineTerminator\<close>: line 190, \<^verbatim>\<open>"Invalid line-ending"\<close>;
  \<^item> \<open>GrammarMismatch\<close>: line 203, \<^verbatim>\<open>"Invalid request line: ..."\<close>;
  \<^item> \<open>UnknownMethod\<close>: failure of \<^verbatim>\<open>method::code\<close> (line 206);
  \<^item> \<open>InvalidVersionNumber\<close>: \<^verbatim>\<open>std::invalid_argument\<close> or
    \<^verbatim>\<open>std::out_of_range\<close> thrown by \<^verbatim>\<open>std::stoul\<close> (lines 210 and 211).
\<close>

datatype error =
  InputTooShort | MissingLineTerminator | GrammarMismatch | UnknownMethod | InvalidVersionNumber

text \<open>
  The width of \<^verbatim>\<open>unsigned long\<close>, the result type of \<^verbatim>\<open>std::stoul\<close>, is fixed by
  the platform's data model and not by the source: 32 bits under ILP32 (the i686 target),
  64 bits under LP64 (x86-64). \<^verbatim>\<open>unsigned\<close> is 32 bits wide under both.
\<close>

datatype data_model = ILP32 | LP64

fun ULONG_MAX :: "data_model \<Rightarrow> nat" where
  "ULONG_MAX ILP32 = 2 ^ 32 - 1"
| "ULONG_MAX LP64 = 2 ^ 64 - 1"

section \<open>Character classes and numbers\<close>

text \<open>
  The classes \<^verbatim>\<open>\s\<close> and \<^verbatim>\<open>\d\<close> of the pattern are the classes \<^verbatim>\<open>space\<close> and
  \<^verbatim>\<open>digit\<close> of the classic locale: space, form feed, line feed, carriage return,
  horizontal and vertical tab; and the ten decimal digits.
\<close>

definition is_space :: "char \<Rightarrow> bool" where
  "is_space c \<longleftrightarrow> c = CHR '' '' \<or> c = CHR 0x0C \<or> c = LF \<or> c = CR \<or> c = CHR 0x09 \<or> c = CHR 0x0B"

definition is_digit :: "char \<Rightarrow> bool" where
  "is_digit c \<longleftrightarrow> 48 \<le> (of_char c :: nat) \<and> (of_char c :: nat) \<le> 57"

definition digit_val :: "char \<Rightarrow> nat" where
  "digit_val c = of_char c - 48"

definition digits_val :: "string \<Rightarrow> nat" where
  "digits_val ds = foldl (\<lambda>acc c. 10 * acc + digit_val c) 0 ds"

text \<open>
  \<^verbatim>\<open>std::stoul(str)\<close>, base 10, as \<^verbatim>\<open>strtoul\<close> defines it: leading white space is
  skipped, an optional sign is read, then the longest run of digits; what follows the run
  is ignored. No digit at all is \<^verbatim>\<open>std::invalid_argument\<close>, a magnitude above
  \<^verbatim>\<open>ULONG_MAX\<close> is \<^verbatim>\<open>std::out_of_range\<close>; a minus sign negates the value in
  the unsigned type.
\<close>

definition stoul :: "data_model \<Rightarrow> string \<Rightarrow> error + nat" where
  "stoul dm str =
     (let s1 = dropWhile is_space str;
          neg = (s1 \<noteq> [] \<and> hd s1 = CHR ''-'');
          s2 = (if s1 \<noteq> [] \<and> (hd s1 = CHR ''-'' \<or> hd s1 = CHR ''+'') then tl s1 else s1);
          ds = takeWhile is_digit s2;
          v = digits_val ds
      in if ds = [] then Inl InvalidVersionNumber
         else if ULONG_MAX dm < v then Inl InvalidVersionNumber
         else Inr (if neg then (ULONG_MAX dm + 1 - v) mod (ULONG_MAX dm + 1) else v))"

text \<open>
  Writing an \<^verbatim>\<open>unsigned\<close> to a \<^verbatim>\<open>std::ostream\<close>: the decimal digits, most significant
  first, no leading zero.
\<close>

fun dec :: "nat \<Rightarrow> string" where
  "dec n = (if n < 10 then [char_of (48 + n)] else dec (n div 10) @ [char_of (48 + n mod 10)])"

declare dec.simps [simp del]

section \<open>The method registry and the version, as the constructor and \<open>to_string\<close> use them\<close>

text \<open>
  Modelled from the spec: \<^verbatim>\<open>method::str\<close> of \<^verbatim>\<open>methods.hpp\<close> (the specification's
  \<open>encode\<close>), total, the canonical upper-case token of a method.
\<close>

fun str :: "Method \<Rightarrow> string" where
  "str GET = ''GET''"
| "str POST = ''POST''"
| "str PUT = ''PUT''"
| "str DELETE = ''DELETE''"
| "str OPTIONS = ''OPTIONS''"
| "str HEAD = ''HEAD''"
| "str TRACE = ''TRACE''"
| "str CONNECT = ''CONNECT''"

text \<open>
  Modelled from the spec: \<^verbatim>\<open>method::code\<close> of \<^verbatim>\<open>methods.hpp\<close> (the specification's
  \<open>decode\<close>): the method whose token equals the argument byte for byte, and
  \<open>UnknownMethod\<close> for every other argument.
\<close>

definition code :: "string \<Rightarrow> error + Method" where
  "code tok =
     (if tok = ''GET'' then Inr GET
      else if tok = ''POST'' then Inr POST
      else if tok = ''PUT'' then Inr PUT
      else if tok = ''DELETE'' then Inr DELETE
      else if tok = ''OPTIONS'' then Inr OPTIONS
      else if tok = ''HEAD'' then Inr HEAD
      else if tok = ''TRACE'' then Inr TRACE
      else if tok = ''CONNECT'' then Inr CONNECT
      else Inl UnknownMethod)"

text \<open>
  Modelled from the spec: the stream output of a \<^verbatim>\<open>Version\<close> (\<^verbatim>\<open>version.hpp\<close>),
  which \<^verbatim>\<open>to_string\<close> places after the second space: \<^verbatim>\<open>HTTP/<major>.<minor>\<close>.
\<close>

definition version_to_string :: "Version \<Rightarrow> string" where
  "version_to_string v = ''HTTP/'' @ dec (unat (major v)) @ ''.'' @ dec (unat (minor v))"

section \<open>The pattern of the request line\<close>

text \<open>
  \<^verbatim>\<open>std::regex\<close> matches by backtracking: each piece of a pattern offers its ways of
  matching a prefix of the remaining input in order of priority, and the first way that
  lets the rest of the pattern succeed wins. A piece is therefore a function from the
  remaining input to the list of its matches, each with the input left over, in priority
  order.
\<close>

type_synonym 'a matcher = "string \<Rightarrow> ('a \<times> string) list"

text \<open>A literal string.\<close>

definition lit :: "string \<Rightarrow> string matcher" where
  "lit w s = (if take (length w) s = w then [(w, drop (length w) s)] else [])"

text \<open>
  A character class under a greedy quantifier with lower bound \<open>lo\<close> (\<^verbatim>\<open>*\<close> is
  \<open>lo = 0\<close>, \<^verbatim>\<open>+\<close> is \<open>lo = 1\<close>): the matcher first tries to take one more
  character of the class, and offers to stop where it is only after that, so the longest
  run comes first and each shorter one follows.
\<close>

fun greedy :: "nat \<Rightarrow> (char \<Rightarrow> bool) \<Rightarrow> string matcher" where
  "greedy lo P [] = (if lo = 0 then [([], [])] else [])"
| "greedy lo P (c # cs) =
     (if P c then map (\<lambda>(a, r). (c # a, r)) (greedy (lo - 1) P cs) else [])
     @ (if lo = 0 then [([], c # cs)] else [])"

text \<open>Alternatives \<^verbatim>\<open>a|b|...\<close>, tried from left to right.\<close>

definition alt :: "'a matcher list \<Rightarrow> 'a matcher" where
  "alt ms s = concat (map (\<lambda>m. m s) ms)"

definition method_tokens :: "string list" where
  "method_tokens = [''GET'', ''POST'', ''PUT'', ''DELETE'', ''OPTIONS'', ''HEAD'', ''TRACE'', ''CONNECT'']"

text \<open>
  The pattern of lines 193 to 198,
  \<^verbatim>\<open>\s*(GET|POST|PUT|DELETE|OPTIONS|HEAD|TRACE|CONNECT) (\S+) HTTP/(\d+)\.(\d+)\<close>,
  with the texts of its four groups as the result.
\<close>

definition request_line_pattern :: "(string \<times> string \<times> string \<times> string) matcher" where
  "request_line_pattern s0 = do {
     (ws, s1) \<leftarrow> greedy 0 is_space s0;
     (m1, s2) \<leftarrow> alt (map lit method_tokens) s1;
     (sp1, s3) \<leftarrow> lit '' '' s2;
     (m2, s4) \<leftarrow> greedy 1 (\<lambda>c. \<not> is_space c) s3;
     (sp2, s5) \<leftarrow> lit '' '' s4;
     (http, s6) \<leftarrow> lit ''HTTP/'' s5;
     (m3, s7) \<leftarrow> greedy 1 is_digit s6;
     (dot, s8) \<leftarrow> lit ''.'' s7;
     (m4, s9) \<leftarrow> greedy 1 is_digit s8;
     [((m1, m2, m3, m4), s9)]
   }"

text \<open>
  \<^verbatim>\<open>std::regex_match\<close> (line 202): the first way of matching that consumes the whole
  line, if there is one.
\<close>

definition regex_match :: "string \<Rightarrow> (string \<times> string \<times> string \<times> string) option" where
  "regex_match line =
     (case filter (\<lambda>(m, rest). rest = []) (request_line_pattern line) of
        [] \<Rightarrow> None
      | (m, rest) # _ \<Rightarrow> Some m)"

section \<open>The constructor\<close>

text \<open>
  \<^verbatim>\<open>string_view::find\<close> with a string and with a character: the first position at
  which the argument occurs, \<open>None\<close> for \<^verbatim>\<open>npos\<close>.
\<close>

fun find_str :: "string \<Rightarrow> string \<Rightarrow> nat option" where
  "find_str pat [] = (if pat = [] then Some 0 else None)"
| "find_str pat (c # cs) =
     (if take (length pat) (c # cs) = pat then Some 0 else map_option Suc (find_str pat cs))"

fun find_chr :: "char \<Rightarrow> string \<Rightarrow> nat option" where
  "find_chr ch [] = None"
| "find_chr ch (c # cs) = (if c = ch then Some 0 else map_option Suc (find_chr ch cs))"

text \<open>
  Lines 179 to 191: the line before the terminator, the terminator's position and whether
  the terminator is the canonical one.
\<close>

definition extract_line :: "string \<Rightarrow> error + (string \<times> nat \<times> bool)" where
  "extract_line request =
     (case find_str CRLF request of
        Some index \<Rightarrow> Inr (take index request, index, True)
      | None \<Rightarrow>
         (case find_chr LF request of
            Some index \<Rightarrow> Inr (take index request, index, False)
          | None \<Rightarrow> Inl MissingLineTerminator))"

text \<open>
  Lines 193 to 212: the match of the line against the pattern and the decoding of the
  three fields from the groups, in the order of the source (method, target, major, minor).
\<close>

definition decode_fields :: "data_model \<Rightarrow> string \<Rightarrow> error + Request_line" where
  "decode_fields dm request_line =
     (case regex_match request_line of
        None \<Rightarrow> Inl GrammarMismatch
      | Some (m1, m2, m3, m4) \<Rightarrow>
         (case code m1 of
            Inl e \<Rightarrow> Inl e
          | Inr meth \<Rightarrow>
             (case stoul dm m3 of
                Inl e \<Rightarrow> Inl e
              | Inr maj \<Rightarrow>
                 (case stoul dm m4 of
                    Inl e \<Rightarrow> Inl e
                  | Inr mi \<Rightarrow>
                     Inr \<lparr>method_m = meth, uri_m = m2,
                          version_m = \<lparr>major = of_nat maj, minor = of_nat mi\<rparr>\<rparr>))))"

text \<open>
  The body of \<^verbatim>\<open>Request_line::Request_line(string_view request)\<close>, lines 173 to 220.
  The result of a run that does not throw is the object's three members together with the
  final value of the local variable \<^verbatim>\<open>request\<close>, which lines 215 to 219 assign. The
  terminator found at \<^verbatim>\<open>index\<close> lies within the view, so neither \<^verbatim>\<open>substr\<close> of
  these lines is out of range.
\<close>

definition Request_line_body :: "data_model \<Rightarrow> string \<Rightarrow> error + (Request_line \<times> string)" where
  "Request_line_body dm request =
     (if request = [] \<or> length request < 15 then Inl InputTooShort
      else case extract_line request of
        Inl e \<Rightarrow> Inl e
      | Inr (request_line, index, is_canonical_line_ending) \<Rightarrow>
         (case decode_fields dm request_line of
            Inl e \<Rightarrow> Inl e
          | Inr this \<Rightarrow>
             Inr (this,
                  if is_canonical_line_ending then drop (index + 2) request
                  else drop (index + 1) request)))"

text \<open>
  What a caller of the constructor obtains. The parameter \<^verbatim>\<open>request\<close> is declared
  \<^verbatim>\<open>std::experimental::string_view request\<close> (lines 49 and 173): it is passed by value, so
  the assignments of lines 216 and 218 change the constructor's own copy of the view, which
  ends with the call. The caller has the constructed object, or the exception.
\<close>

definition Request_line :: "data_model \<Rightarrow> string \<Rightarrow> error + Request_line" where
  "Request_line dm request =
     (case Request_line_body dm request of
        Inl e \<Rightarrow> Inl e
      | Inr (this, request') \<Rightarrow> Inr this)"

text \<open>The default constructor (line 171) leaves the member initialisers of lines 154 to 156.\<close>

definition Request_line_default :: Request_line where
  "Request_line_default = \<lparr>method_m = GET, uri_m = ''/'', version_m = \<lparr>major = 1, minor = 1\<rparr>\<rparr>"

section \<open>Accessors, setters and \<open>to_string\<close>\<close>

text \<open>
  A member function is a function of the object that returns its result and the object
  after the call (lines 222 to 255). The accessor \<^verbatim>\<open>method()\<close> is \<open>method_get\<close>, its
  own name being a keyword of the language of this document.
\<close>

definition method_get :: "Request_line \<Rightarrow> Method \<times> Request_line" where
  "method_get this = (method_m this, this)"

definition set_method :: "Method \<Rightarrow> Request_line \<Rightarrow> Request_line" where
  "set_method m this = this\<lparr>method_m := m\<rparr>"

definition uri :: "Request_line \<Rightarrow> URI \<times> Request_line" where
  "uri this = (uri_m this, this)"

definition set_uri :: "URI \<Rightarrow> Request_line \<Rightarrow> Request_line" where
  "set_uri u this = this\<lparr>uri_m := u\<rparr>"

definition version :: "Request_line \<Rightarrow> Version \<times> Request_line" where
  "version this = (version_m this, this)"

definition set_version :: "Version \<Rightarrow> Request_line \<Rightarrow> Request_line" where
  "set_version v this = this\<lparr>version_m := v\<rparr>"

text \<open>\<^verbatim>\<open>Request_line::to_string\<close>, lines 257 to 265.\<close>

definition to_string :: "Request_line \<Rightarrow> string" where
  "to_string this =
     str (method_m this) @ '' '' @ uri_m this @ '' '' @ version_to_string (version_m this) @ CRLF"

section \<open>The specification's vocabulary\<close>

text \<open>
  The grammar of the request line in the specification's words: the line is a run of
  white space \<open>ws\<close>, a token \<open>m\<close>, one space, a target \<open>t\<close>, one space, the literal
  \<^verbatim>\<open>HTTP/\<close>, a run of digits \<open>a\<close>, a dot and a run of digits \<open>b\<close>, where token and
  target are non-empty and free of white space and both digit runs are non-empty.
\<close>

definition request_line_shape ::
  "string \<Rightarrow> string \<Rightarrow> string \<Rightarrow> string \<Rightarrow> string \<Rightarrow> string \<Rightarrow> bool" where
  "request_line_shape line ws m t a b \<longleftrightarrow>
     line = ws @ m @ '' '' @ t @ '' HTTP/'' @ a @ ''.'' @ b
     \<and> list_all is_space ws
     \<and> m \<noteq> [] \<and> list_all (\<lambda>c. \<not> is_space c) m
     \<and> t \<noteq> [] \<and> list_all (\<lambda>c. \<not> is_space c) t
     \<and> a \<noteq> [] \<and> list_all is_digit a
     \<and> b \<noteq> [] \<and> list_all is_digit b"

text \<open>The grammar proper asks the token to be one of the eight method tokens.\<close>

definition request_line_grammar :: "string \<Rightarrow> bool" where
  "request_line_grammar line \<longleftrightarrow>
     (\<exists>ws m t a b. request_line_shape line ws m t a b \<and> m \<in> set method_tokens)"

text \<open>
  Occurrences: \<open>pat\<close> occurs in \<open>s\<close> at position \<open>i\<close>, and \<open>i\<close> is the first such
  position.
\<close>

definition occurs_at :: "string \<Rightarrow> string \<Rightarrow> nat \<Rightarrow> bool" where
  "occurs_at pat s i \<longleftrightarrow> take (length pat) (drop i s) = pat"

definition first_at :: "string \<Rightarrow> string \<Rightarrow> nat \<Rightarrow> bool" where
  "first_at pat s i \<longleftrightarrow> occurs_at pat s i \<and> (\<forall>j<i. \<not> occurs_at pat s j)"

section \<open>The matcher and the grammar\<close>

text \<open>
  Each piece of the pattern offers exactly the splits of the input that the piece
  describes; the whole pattern offers exactly the decompositions of the grammar, and a
  line has at most one of them.
\<close>

lemma cons_image_iff: "(a, r) \<in> (\<lambda>(a, r). (c # a, r)) ` S \<longleftrightarrow> (\<exists>xs. a = c # xs \<and> (xs, r) \<in> S)"
  by force

lemma greedy_iff: "(a, r) \<in> set (greedy lo P s) \<longleftrightarrow> s = a @ r \<and> list_all P a \<and> lo \<le> length a"
proof (induction s arbitrary: lo a)
  case Nil
  then show ?case by auto
next
  case (Cons c cs)
  show ?case
  proof (cases a)
    case Nil
    then show ?thesis by (auto simp: Cons.IH cons_image_iff)
  next
    case (Cons x xs)
    then show ?thesis by (auto simp: Cons.IH cons_image_iff)
  qed
qed

lemma lit_iff: "(a, r) \<in> set (lit w s) \<longleftrightarrow> a = w \<and> s = w @ r"
  by (auto simp: lit_def) (metis append_take_drop_id)

lemma alt_iff: "x \<in> set (alt ms s) \<longleftrightarrow> (\<exists>m \<in> set ms. x \<in> set (m s))"
  by (auto simp: alt_def)

lemma alt_lit_iff: "(a, r) \<in> set (alt (map lit ws) s) \<longleftrightarrow> a \<in> set ws \<and> s = a @ r"
  by (auto simp: alt_iff lit_iff)

lemma bind_pair_iff:
  "y \<in> set (List.bind xs (\<lambda>(a, r). f a r)) \<longleftrightarrow> (\<exists>a r. (a, r) \<in> set xs \<and> y \<in> set (f a r))"
  by (auto simp: set_list_bind)

lemma pattern_iff:
  "((m1, m2, m3, m4), r) \<in> set (request_line_pattern s) \<longleftrightarrow>
     (\<exists>ws. s = ws @ m1 @ '' '' @ m2 @ '' HTTP/'' @ m3 @ ''.'' @ m4 @ r \<and> list_all is_space ws
        \<and> m1 \<in> set method_tokens
        \<and> m2 \<noteq> [] \<and> list_all (\<lambda>c. \<not> is_space c) m2
        \<and> m3 \<noteq> [] \<and> list_all is_digit m3
        \<and> m4 \<noteq> [] \<and> list_all is_digit m4)"
  unfolding request_line_pattern_def
  apply (simp add: bind_pair_iff greedy_iff lit_iff alt_lit_iff Suc_le_eq del: set_map)
  apply auto
  done

lemma split_unique:
  assumes "xs @ ys = xs' @ ys'" "list_all P xs" "list_all P xs'"
    and "ys \<noteq> []" "\<not> P (hd ys)" "ys' \<noteq> []" "\<not> P (hd ys')"
  shows "xs = xs' \<and> ys = ys'"
proof -
  have "takeWhile P (xs @ ys) = xs" using assms(2,4,5)
    by (cases ys) (auto simp: list_all_iff takeWhile_append2)
  moreover have "takeWhile P (xs' @ ys') = xs'" using assms(3,6,7)
    by (cases ys') (auto simp: list_all_iff takeWhile_append2)
  ultimately have "xs = xs'" using assms(1) by simp
  with assms(1) show ?thesis by simp
qed

lemma method_token_plain: "m \<in> set method_tokens \<Longrightarrow> m \<noteq> [] \<and> list_all (\<lambda>c. \<not> is_space c) m"
  by (auto simp: method_tokens_def is_space_def)

lemma shape_unique:
  assumes "request_line_shape line ws m t a b" and "request_line_shape line ws' m' t' a' b'"
  shows "ws = ws' \<and> m = m' \<and> t = t' \<and> a = a' \<and> b = b'"
proof -
  from assms have eq: "ws @ (m @ '' '' @ t @ '' HTTP/'' @ a @ ''.'' @ b)
      = ws' @ (m' @ '' '' @ t' @ '' HTTP/'' @ a' @ ''.'' @ b')"
    by (simp add: request_line_shape_def)
  from assms have m: "m \<noteq> []" "\<not> is_space (hd m)" "m' \<noteq> []" "\<not> is_space (hd m')"
    by (cases m; cases m'; simp add: request_line_shape_def)+
  have 1: "ws = ws' \<and> m @ '' '' @ t @ '' HTTP/'' @ a @ ''.'' @ b = m' @ '' '' @ t' @ '' HTTP/'' @ a' @ ''.'' @ b'"
    using assms m by (intro split_unique [OF eq, where P = is_space]) (simp_all add: request_line_shape_def)
  have 2: "m = m' \<and> '' '' @ t @ '' HTTP/'' @ a @ ''.'' @ b = '' '' @ t' @ '' HTTP/'' @ a' @ ''.'' @ b'"
    using assms by (intro split_unique [where P = "\<lambda>c. \<not> is_space c"]) (simp_all add: 1 request_line_shape_def is_space_def)
  then have eq3: "t @ ('' HTTP/'' @ a @ ''.'' @ b) = t' @ ('' HTTP/'' @ a' @ ''.'' @ b')" by simp
  have 3: "t = t' \<and> '' HTTP/'' @ a @ ''.'' @ b = '' HTTP/'' @ a' @ ''.'' @ b'"
    using assms by (intro split_unique [OF eq3, where P = "\<lambda>c. \<not> is_space c"]) (simp_all add: request_line_shape_def is_space_def)
  then have eq4: "a @ (''.'' @ b) = a' @ (''.'' @ b')" by simp
  have 4: "a = a' \<and> ''.'' @ b = ''.'' @ b'"
    using assms by (intro split_unique [OF eq4, where P = is_digit]) (simp_all add: request_line_shape_def is_digit_def)
  from 1 2 3 4 show ?thesis by simp
qed

lemma pattern_shape_iff:
  "((m1, m2, m3, m4), []) \<in> set (request_line_pattern line) \<longleftrightarrow>
     (\<exists>ws. request_line_shape line ws m1 m2 m3 m4 \<and> m1 \<in> set method_tokens)"
  using method_token_plain [of m1] by (auto simp: pattern_iff request_line_shape_def)

lemma regex_match_Some_iff:
  "regex_match line = Some (m1, m2, m3, m4) \<longleftrightarrow>
     (\<exists>ws. request_line_shape line ws m1 m2 m3 m4 \<and> m1 \<in> set method_tokens)"
proof
  assume "regex_match line = Some (m1, m2, m3, m4)"
  then obtain rest xs where "filter (\<lambda>(m, rest). rest = []) (request_line_pattern line) = ((m1, m2, m3, m4), rest) # xs"
    by (auto simp: regex_match_def split: list.splits)
  then have "((m1, m2, m3, m4), rest) \<in> set (filter (\<lambda>(m, rest). rest = []) (request_line_pattern line))"
    by simp
  then have "((m1, m2, m3, m4), []) \<in> set (request_line_pattern line)" by auto
  then show "\<exists>ws. request_line_shape line ws m1 m2 m3 m4 \<and> m1 \<in> set method_tokens"
    by (simp add: pattern_shape_iff)
next
  assume "\<exists>ws. request_line_shape line ws m1 m2 m3 m4 \<and> m1 \<in> set method_tokens"
  then obtain ws where sh: "request_line_shape line ws m1 m2 m3 m4" and "m1 \<in> set method_tokens" by blast
  then have "((m1, m2, m3, m4), []) \<in> set (filter (\<lambda>(m, rest). rest = []) (request_line_pattern line))"
    using pattern_shape_iff [of m1 m2 m3 m4 line] by auto
  then obtain c rest xs where f: "filter (\<lambda>(m, rest). rest = []) (request_line_pattern line) = (c, rest) # xs"
    by (cases "filter (\<lambda>(m, rest). rest = []) (request_line_pattern line)") auto
  then have "(c, rest) \<in> set (filter (\<lambda>(m, rest). rest = []) (request_line_pattern line))" by simp
  then have "(c, []) \<in> set (request_line_pattern line)" by auto
  then obtain ws' where "request_line_shape line ws' (fst c) (fst (snd c)) (fst (snd (snd c))) (snd (snd (snd c)))"
    using pattern_shape_iff [of "fst c" "fst (snd c)" "fst (snd (snd c))" "snd (snd (snd c))" line] by auto
  from shape_unique [OF sh this] have "c = (m1, m2, m3, m4)" by (cases c) auto
  with f show "regex_match line = Some (m1, m2, m3, m4)" by (simp add: regex_match_def)
qed

lemma regex_match_None_iff: "regex_match line = None \<longleftrightarrow> \<not> request_line_grammar line"
proof (cases "regex_match line")
  case None
  then have "\<And>m1 m2 m3 m4. regex_match line \<noteq> Some (m1, m2, m3, m4)" by simp
  then have "\<not> request_line_grammar line"
    unfolding request_line_grammar_def regex_match_Some_iff by blast
  with None show ?thesis by simp
next
  case (Some c)
  obtain m1 m2 m3 m4 where "c = (m1, m2, m3, m4)" by (cases c) auto
  with Some have "request_line_grammar line"
    unfolding request_line_grammar_def using regex_match_Some_iff [of line m1 m2 m3 m4] by blast
  with Some show ?thesis by simp
qed

section \<open>Searching for the terminator\<close>

lemma occurs_at_0: "occurs_at pat s 0 \<longleftrightarrow> take (length pat) s = pat"
  by (simp add: occurs_at_def)

lemma occurs_at_Suc: "occurs_at pat (c # cs) (Suc i) \<longleftrightarrow> occurs_at pat cs i"
  by (simp add: occurs_at_def)

lemma find_str_Some_iff: "pat \<noteq> [] \<Longrightarrow> find_str pat s = Some i \<longleftrightarrow> first_at pat s i"
proof (induction s arbitrary: i)
  case Nil
  then show ?case by (auto simp: first_at_def occurs_at_def)
next
  case (Cons c cs)
  show ?case
  proof (cases "take (length pat) (c # cs) = pat")
    case True
    then have "occurs_at pat (c # cs) 0" by (simp add: occurs_at_0)
    then have "first_at pat (c # cs) i \<longleftrightarrow> i = 0"
      by (cases i) (auto simp: first_at_def)
    with True show ?thesis by auto
  next
    case False
    then have no0: "\<not> occurs_at pat (c # cs) 0" by (simp add: occurs_at_0)
    show ?thesis
    proof (cases i)
      case 0
      with False no0 show ?thesis by (auto simp: first_at_def)
    next
      case (Suc k)
      have "(\<forall>j<Suc k. \<not> occurs_at pat (c # cs) j) \<longleftrightarrow> (\<forall>j<k. \<not> occurs_at pat cs j)"
        using no0 by (auto simp: less_Suc_eq_0_disj occurs_at_Suc)
      then have "first_at pat (c # cs) (Suc k) \<longleftrightarrow> first_at pat cs k"
        by (simp add: first_at_def occurs_at_Suc)
      with False Suc Cons.IH [OF Cons.prems, of k] show ?thesis by auto
    qed
  qed
qed

lemma find_str_None_iff: "pat \<noteq> [] \<Longrightarrow> find_str pat s = None \<longleftrightarrow> (\<forall>j. \<not> occurs_at pat s j)"
proof (induction s)
  case Nil
  then show ?case by (auto simp: occurs_at_def)
next
  case (Cons c cs)
  have "(\<forall>j. \<not> occurs_at pat (c # cs) j) \<longleftrightarrow> \<not> occurs_at pat (c # cs) 0 \<and> (\<forall>j. \<not> occurs_at pat cs j)"
  proof (intro iffI conjI allI)
    fix j assume a: "\<forall>j. \<not> occurs_at pat (c # cs) j"
    show "\<not> occurs_at pat (c # cs) 0" using a by blast
    show "\<not> occurs_at pat cs j" using a occurs_at_Suc [of pat c cs j] by blast
  next
    fix j assume a: "\<not> occurs_at pat (c # cs) 0 \<and> (\<forall>j. \<not> occurs_at pat cs j)"
    show "\<not> occurs_at pat (c # cs) j" using a by (cases j) (simp_all add: occurs_at_Suc)
  qed
  with Cons show ?case by (simp add: occurs_at_0)
qed

lemma find_chr_find_str: "find_chr ch s = find_str [ch] s"
  by (induction s) auto

lemma occurs_at_char: "occurs_at [ch] s i \<longleftrightarrow> i < length s \<and> s ! i = ch"
proof (cases "i < length s")
  case True
  then have "drop i s = s ! i # drop (Suc i) s" by (simp add: Cons_nth_drop_Suc)
  with True show ?thesis by (simp add: occurs_at_def)
next
  case False
  then show ?thesis by (simp add: occurs_at_def)
qed

lemma occurs_CRLF_LF: "occurs_at CRLF s i \<Longrightarrow> occurs_at [LF] s (Suc i)"
proof -
  assume "occurs_at CRLF s i"
  then obtain r where "drop i s = CR # LF # r"
    by (cases "drop i s"; cases "tl (drop i s)") (auto simp: occurs_at_def)
  moreover have "drop (Suc i) s = tl (drop i s)" by (simp add: drop_Suc tl_drop)
  ultimately show ?thesis by (simp add: occurs_at_def)
qed

lemma no_LF_iff: "(\<forall>j. \<not> occurs_at [LF] s j) \<longleftrightarrow> LF \<notin> set s"
  by (auto simp: occurs_at_char in_set_conv_nth)

section \<open>The stages of the constructor\<close>

lemma Request_line_body_eq:
  assumes "15 \<le> length x" and "extract_line x = Inr (line, i, c)"
  shows "Request_line_body dm x =
     (case decode_fields dm line of
        Inl e \<Rightarrow> Inl e
      | Inr this \<Rightarrow> Inr (this, if c then drop (i + 2) x else drop (i + 1) x))"
  using assms by (auto simp: Request_line_body_def)

lemma Request_line_eq:
  assumes "15 \<le> length x" and "extract_line x = Inr (line, i, c)"
  shows "Request_line dm x = decode_fields dm line"
  using assms by (auto simp: Request_line_def Request_line_body_def split: sum.splits)

lemma code_not_GrammarMismatch: "code tok \<noteq> Inl GrammarMismatch"
  by (simp add: code_def)

lemma stoul_not_GrammarMismatch: "stoul dm s \<noteq> Inl GrammarMismatch"
  by (simp add: stoul_def Let_def)

lemma decode_fields_GrammarMismatch_iff:
  "decode_fields dm line = Inl GrammarMismatch \<longleftrightarrow> regex_match line = None"
  using code_not_GrammarMismatch stoul_not_GrammarMismatch
  by (auto simp: decode_fields_def split: option.splits sum.splits)


section \<open>Numbers and method tokens\<close>

lemma digit_not_space: "is_digit c \<Longrightarrow> \<not> is_space c"
  by (auto simp: is_digit_def is_space_def)

lemma digit_not_sign: "is_digit c \<Longrightarrow> c \<noteq> CHR ''-'' \<and> c \<noteq> CHR ''+'' \<and> c \<noteq> CHR ''.''"
  by (auto simp: is_digit_def)

lemma is_digit_char_of: "d < 10 \<Longrightarrow> is_digit (char_of (48 + d :: nat))"
  by (simp add: is_digit_def)

lemma digit_val_char_of: "d < 10 \<Longrightarrow> digit_val (char_of (48 + d :: nat)) = d"
  by (simp add: digit_val_def)

lemma dec_nonempty: "dec n \<noteq> []"
  by (subst dec.simps) simp

lemma dec_digits: "list_all is_digit (dec n)"
proof (induction n rule: dec.induct)
  case (1 n)
  show ?case
  proof (cases "n < 10")
    case True
    then show ?thesis by (subst dec.simps) (simp add: is_digit_char_of)
  next
    case False
    with 1 show ?thesis by (subst dec.simps) (simp add: is_digit_char_of)
  qed
qed

lemma digits_val_snoc: "digits_val (ds @ [c]) = 10 * digits_val ds + digit_val c"
  by (simp add: digits_val_def)

lemma digits_val_dec: "digits_val (dec n) = n"
proof (induction n rule: dec.induct)
  case (1 n)
  show ?case
  proof (cases "n < 10")
    case True
    then show ?thesis by (subst dec.simps) (simp add: digits_val_def digit_val_char_of)
  next
    case False
    with 1 show ?thesis by (subst dec.simps) (simp add: digits_val_snoc digit_val_char_of)
  qed
qed

lemma stoul_digits:
  assumes "ds \<noteq> []" and "list_all is_digit ds"
  shows "stoul dm ds = (if ULONG_MAX dm < digits_val ds then Inl InvalidVersionNumber else Inr (digits_val ds))"
proof -
  from assms have c: "is_digit (hd ds)" by (cases ds) auto
  have 1: "dropWhile is_space ds = ds" using assms(1) c digit_not_space by (cases ds) auto
  have 2: "takeWhile is_digit ds = ds" using assms(2) by (simp add: list_all_iff)
  have 3: "hd ds \<noteq> CHR ''-''" "hd ds \<noteq> CHR ''+''" using digit_not_sign [OF c] by simp_all
  show ?thesis unfolding stoul_def Let_def 1 using assms(1) 3 by (simp add: 2)
qed

lemma ULONG_MAX_ge: "2 ^ 32 - 1 \<le> ULONG_MAX dm"
  by (cases dm) simp_all

lemma code_str: "code (str m) = Inr m"
  by (cases m) (simp_all add: code_def)

lemma code_Inr_iff: "code tok = Inr m \<longleftrightarrow> str m = tok"
  by (cases m) (auto simp: code_def split: if_splits)

lemma str_method_token: "str m \<in> set method_tokens"
  by (cases m) (simp_all add: method_tokens_def)

lemma method_token_str: "tok \<in> set method_tokens \<Longrightarrow> \<exists>m. str m = tok"
  unfolding method_tokens_def
  by (metis str.simps set_ConsD empty_iff empty_set)

lemma length_str: "3 \<le> length (str m)"
  by (cases m) simp_all

section \<open>The constructor on a line of known shape\<close>

lemma decode_fields_shape:
  assumes "request_line_shape line ws m t a b" and "code m = Inr meth"
  shows "decode_fields dm line =
     (if ULONG_MAX dm < digits_val a \<or> ULONG_MAX dm < digits_val b then Inl InvalidVersionNumber
      else Inr \<lparr>method_m = meth, uri_m = t,
               version_m = \<lparr>major = of_nat (digits_val a), minor = of_nat (digits_val b)\<rparr>\<rparr>)"
proof -
  from assms(2) have "m \<in> set method_tokens"
    using str_method_token [of meth] by (simp add: code_Inr_iff)
  with assms(1) have rx: "regex_match line = Some (m, t, a, b)"
    by (auto simp: regex_match_Some_iff)
  from assms(1) have "a \<noteq> []" "list_all is_digit a" "b \<noteq> []" "list_all is_digit b"
    by (simp_all add: request_line_shape_def)
  then have "stoul dm a = (if ULONG_MAX dm < digits_val a then Inl InvalidVersionNumber else Inr (digits_val a))"
    and "stoul dm b = (if ULONG_MAX dm < digits_val b then Inl InvalidVersionNumber else Inr (digits_val b))"
    by (simp_all add: stoul_digits)
  then show ?thesis by (simp add: decode_fields_def rx assms(2))
qed

lemma shape_unknown_token:
  assumes "request_line_shape line ws tok t a b" and "tok \<notin> set method_tokens"
  shows "\<not> request_line_grammar line"
proof
  assume "request_line_grammar line"
  then obtain ws' m t' a' b' where "request_line_shape line ws' m t' a' b'" and m: "m \<in> set method_tokens"
    unfolding request_line_grammar_def by blast
  from shape_unique [OF assms(1) this(1)] have "tok = m" by simp
  with m assms(2) show False by simp
qed

lemma extract_line_CRLF:
  assumes "occurs_at CRLF x j"
  shows "\<exists>i. first_at CRLF x i \<and> extract_line x = Inr (take i x, i, True)"
proof -
  have "find_str CRLF x \<noteq> None" using assms by (auto simp: find_str_None_iff)
  then obtain i where i: "find_str CRLF x = Some i" by auto
  then have "first_at CRLF x i" by (simp add: find_str_Some_iff)
  with i show ?thesis by (auto simp: extract_line_def)
qed

lemma extract_line_LF:
  assumes "\<forall>j. \<not> occurs_at CRLF x j" and "occurs_at [LF] x j"
  shows "\<exists>i. first_at [LF] x i \<and> extract_line x = Inr (take i x, i, False)"
proof -
  have n: "find_str CRLF x = None" using assms(1) by (simp add: find_str_None_iff)
  have "find_chr LF x \<noteq> None" using assms(2) by (auto simp: find_chr_find_str find_str_None_iff)
  then obtain i where i: "find_chr LF x = Some i" by auto
  then have "first_at [LF] x i" by (simp add: find_chr_find_str find_str_Some_iff)
  with i n show ?thesis by (auto simp: extract_line_def)
qed

lemma extract_line_none:
  assumes "LF \<notin> set x"
  shows "extract_line x = Inl MissingLineTerminator"
proof -
  from assms have lf: "\<forall>j. \<not> occurs_at [LF] x j" by (simp add: no_LF_iff)
  then have "\<forall>j. \<not> occurs_at CRLF x j" using occurs_CRLF_LF by blast
  then have "find_str CRLF x = None" by (simp add: find_str_None_iff)
  moreover have "find_chr LF x = None" using lf by (simp add: find_chr_find_str find_str_None_iff)
  ultimately show ?thesis by (simp add: extract_line_def)
qed

lemma Request_line_no_terminator:
  assumes "15 \<le> length x" and "extract_line x = Inl e"
  shows "Request_line dm x = Inl e"
  using assms by (auto simp: Request_line_def Request_line_body_def)

lemma Request_line_body_shape:
  assumes "15 \<le> length x" and "extract_line x = Inr (line, i, c)"
    and "request_line_shape line ws m t a b" and "code m = Inr meth"
    and "digits_val a \<le> ULONG_MAX dm" and "digits_val b \<le> ULONG_MAX dm"
  shows "Request_line_body dm x =
     Inr (\<lparr>method_m = meth, uri_m = t,
           version_m = \<lparr>major = of_nat (digits_val a), minor = of_nat (digits_val b)\<rparr>\<rparr>,
          if c then drop (i + 2) x else drop (i + 1) x)"
  using assms(5,6)
  by (simp add: Request_line_body_eq [OF assms(1,2)] decode_fields_shape [OF assms(3,4)])

lemma Request_line_of_body:
  "Request_line_body dm x = Inr (this, r) \<Longrightarrow> Request_line dm x = Inr this"
  by (simp add: Request_line_def)

lemma Request_line_shape:
  assumes "15 \<le> length x" and "extract_line x = Inr (line, i, c)"
    and "request_line_shape line ws m t a b" and "code m = Inr meth"
  shows "Request_line dm x =
     (if ULONG_MAX dm < digits_val a \<or> ULONG_MAX dm < digits_val b then Inl InvalidVersionNumber
      else Inr \<lparr>method_m = meth, uri_m = t,
               version_m = \<lparr>major = of_nat (digits_val a), minor = of_nat (digits_val b)\<rparr>\<rparr>)"
  by (simp only: Request_line_eq [OF assms(1,2)] decode_fields_shape [OF assms(3,4)])

lemma extract_line_Inr:
  assumes "extract_line x = Inr (line, i, c)"
  shows "line = take i x \<and> (if c then first_at CRLF x i else first_at [LF] x i)"
  using assms
  by (auto simp: extract_line_def find_chr_find_str find_str_Some_iff split: option.splits)

lemma take_terminator:
  assumes "first_at pat x i"
  shows "take (i + length pat) x = take i x @ pat"
  using assms by (simp add: first_at_def occurs_at_def take_add)

lemma shape_no_LF:
  assumes "request_line_shape line [] m t a b"
  shows "LF \<notin> set line"
proof -
  have sp: "is_space LF" by (simp add: is_space_def)
  from assms have "list_all (\<lambda>c. \<not> is_space c) m" "list_all (\<lambda>c. \<not> is_space c) t"
    "list_all is_digit a" "list_all is_digit b"
    by (simp_all add: request_line_shape_def)
  then have "LF \<notin> set m" "LF \<notin> set t" "LF \<notin> set a" "LF \<notin> set b"
    using sp digit_not_space by (auto simp: list_all_iff)
  with assms show ?thesis by (simp add: request_line_shape_def)
qed

lemma first_at_CRLF_end:
  assumes "LF \<notin> set line"
  shows "first_at CRLF (line @ CRLF @ rest) (length line)"
  unfolding first_at_def
proof (intro conjI allI impI)
  show "occurs_at CRLF (line @ CRLF @ rest) (length line)" by (simp add: occurs_at_def)
next
  fix j assume j: "j < length line"
  show "\<not> occurs_at CRLF (line @ CRLF @ rest) j"
  proof
    assume "occurs_at CRLF (line @ CRLF @ rest) j"
    then have "occurs_at [LF] (line @ CRLF @ rest) (Suc j)" by (rule occurs_CRLF_LF)
    then have lf: "(line @ CRLF @ rest) ! Suc j = LF" by (simp add: occurs_at_char)
    show False
    proof (cases "Suc j < length line")
      case True
      with lf have "line ! Suc j = LF" by (simp add: nth_append)
      with True assms show False by (metis nth_mem)
    next
      case False
      with j have "Suc j = length line" by simp
      with lf show False by (simp add: nth_append)
    qed
  qed
qed

lemma extract_line_CRLF_end:
  assumes "LF \<notin> set line"
  shows "extract_line (line @ CRLF @ rest) = Inr (line, length line, True)"
proof -
  have "find_str CRLF (line @ CRLF @ rest) = Some (length line)"
    using first_at_CRLF_end [OF assms] by (simp add: find_str_Some_iff)
  then show ?thesis by (simp add: extract_line_def)
qed

lemma shape_length: "request_line_shape line ws m t a b \<Longrightarrow> length m + 10 \<le> length line"
  by (cases t; cases a; cases b) (auto simp: request_line_shape_def)

lemma Request_line_Inr_length: "Request_line dm x = Inr rl \<Longrightarrow> 15 \<le> length x"
  by (auto simp: Request_line_def Request_line_body_def split: if_splits)

lemma to_string_eq:
  "to_string rl = str (method_m rl) @ '' '' @ uri_m rl @ '' HTTP/''
      @ dec (unat (major (version_m rl))) @ ''.'' @ dec (unat (minor (version_m rl))) @ CRLF"
  by (simp add: to_string_def version_to_string_def)

lemma render_shape:
  assumes "uri_m rl \<noteq> []" and "list_all (\<lambda>c. \<not> is_space c) (uri_m rl)"
  shows "request_line_shape
     (str (method_m rl) @ '' '' @ uri_m rl @ '' HTTP/''
        @ dec (unat (major (version_m rl))) @ ''.'' @ dec (unat (minor (version_m rl))))
     [] (str (method_m rl)) (uri_m rl)
     (dec (unat (major (version_m rl)))) (dec (unat (minor (version_m rl))))"
  using assms method_token_plain [OF str_method_token, of "method_m rl"]
  by (simp add: request_line_shape_def dec_nonempty dec_digits)

section \<open>What a successful construction says about the line\<close>

lemma decode_fields_Inr_grammar:
  assumes "decode_fields dm line = Inr rl"
  shows "request_line_grammar line"
proof -
  from assms have "regex_match line \<noteq> None"
    by (cases "regex_match line") (simp_all add: decode_fields_def)
  then show ?thesis by (simp add: regex_match_None_iff)
qed

lemma Request_line_Inr_shape:
  assumes "Request_line dm x = Inr rl" and "extract_line x = Inr (line, i, c)"
    and "request_line_shape line ws m t a b"
  shows "str (method_m rl) = m \<and> uri_m rl = t
     \<and> major (version_m rl) = of_nat (digits_val a) \<and> minor (version_m rl) = of_nat (digits_val b)"
proof -
  have len: "15 \<le> length x" by (rule Request_line_Inr_length [OF assms(1)])
  with assms(1,2) have df: "decode_fields dm line = Inr rl" by (simp add: Request_line_eq)
  from decode_fields_Inr_grammar [OF df]
  obtain ws' m' t' a' b' where sh': "request_line_shape line ws' m' t' a' b'"
    and tok: "m' \<in> set method_tokens"
    unfolding request_line_grammar_def by blast
  from shape_unique [OF assms(3) sh'] have "m = m'" by simp
  with tok obtain meth where "str meth = m" using method_token_str by blast
  then have cd: "code m = Inr meth" by (simp add: code_Inr_iff)
  from decode_fields_shape [OF assms(3) cd, of dm] df
  have "rl = \<lparr>method_m = meth, uri_m = t,
               version_m = \<lparr>major = of_nat (digits_val a), minor = of_nat (digits_val b)\<rparr>\<rparr>"
    by (simp split: if_splits)
  with \<open>str meth = m\<close> show ?thesis by simp
qed

lemma unat_of_nat_32: "n < 2 ^ 32 \<Longrightarrow> unat (of_nat n :: 32 word) = n"
  by (simp add: unat_of_nat)

section \<open>Some concrete lines\<close>

lemma shape_GET_1_1: "request_line_shape ''GET / HTTP/1.1'' [] ''GET'' ''/'' ''1'' ''1''"
  by (simp add: request_line_shape_def is_space_def is_digit_def)

lemma code_GET: "code ''GET'' = Inr GET"
  by (simp add: code_def)

lemma digits_val_1: "digits_val ''1'' = 1"
  by (simp add: digits_val_def digit_val_def)

lemma dec_1: "dec (Suc 0) = ''1''"
  by (subst dec.simps) (simp add: char_of_eq_iff)

lemma dec_0: "dec 0 = ''0''"
  by (subst dec.simps) (simp add: char_of_eq_iff)

lemma to_string_default: "to_string Request_line_default = ''GET / HTTP/1.1'' @ CRLF"
  by (simp add: to_string_eq Request_line_default_def dec_1)

lemma Request_line_body_GET_1_1:
  assumes "15 \<le> length x" and "extract_line x = Inr (''GET / HTTP/1.1'', i, c)"
  shows "Request_line_body dm x = Inr (Request_line_default, if c then drop (i + 2) x else drop (i + 1) x)"
proof -
  have "digits_val ''1'' \<le> ULONG_MAX dm" using ULONG_MAX_ge [of dm] by (simp add: digits_val_1)
  from Request_line_body_shape [OF assms shape_GET_1_1 code_GET this this]
  show ?thesis by (simp add: digits_val_1 Request_line_default_def)
qed

lemma Request_line_GET_1_1:
  assumes "15 \<le> length x" and "extract_line x = Inr (''GET / HTTP/1.1'', i, c)"
  shows "Request_line dm x = Inr Request_line_default"
  by (rule Request_line_of_body [OF Request_line_body_GET_1_1 [OF assms]])

section \<open>The claims\<close>

subsection \<open>C1: the grammar of the line\<close>

text \<open>
  Claim C1. For an input of at least 15 bytes in which a terminator is found, the bytes
  before the terminator are accepted exactly when they are an optional run of white space,
  one of the eight method tokens, one space, a non-empty target free of white space, one
  space, the literal \<^verbatim>\<open>HTTP/\<close>, one or more digits, a dot and one or more digits,
  with nothing after them; every other line makes the construction fail with
  \<open>GrammarMismatch\<close>, and no line of the grammar does.
\<close>

theorem C1_grammar_match:
  assumes "15 \<le> length x" and "extract_line x = Inr (line, i, c)"
  shows "(Request_line dm x = Inl GrammarMismatch) = (\<not> request_line_grammar line)"
  using assms
  by (simp add: Request_line_eq decode_fields_GrammarMismatch_iff regex_match_None_iff)

theorem C1_witness:
  "15 \<le> length (''GET / HTTP/1.1'' @ CRLF)
   \<and> extract_line (''GET / HTTP/1.1'' @ CRLF) = Inr (''GET / HTTP/1.1'', 14, True)
   \<and> request_line_grammar ''GET / HTTP/1.1''
   \<and> Request_line LP64 (''GET / HTTP/1.1'' @ CRLF) \<noteq> Inl GrammarMismatch"
proof -
  have len: "15 \<le> length (''GET / HTTP/1.1'' @ CRLF)" by simp
  have ex: "extract_line (''GET / HTTP/1.1'' @ CRLF) = Inr (''GET / HTTP/1.1'', 14, True)"
    by (simp add: extract_line_def)
  have "request_line_shape ''GET / HTTP/1.1'' [] ''GET'' ''/'' ''1'' ''1''"
    by (simp add: request_line_shape_def is_space_def is_digit_def)
  then have gr: "request_line_grammar ''GET / HTTP/1.1''"
    unfolding request_line_grammar_def by (intro exI conjI) (assumption, simp add: method_tokens_def)
  with C1_grammar_match [OF len ex, of LP64] len ex show ?thesis by blast
qed

subsection \<open>C2: the choice of the terminator\<close>

text \<open>
  Claim C2. The whole input is searched for \<^verbatim>\<open>"\r\n"\<close> first and its first occurrence
  ends the line, wherever a bare \<^verbatim>\<open>"\n"\<close> may stand before it; only when
  \<^verbatim>\<open>"\r\n"\<close> occurs nowhere does the first bare \<^verbatim>\<open>"\n"\<close> end the line; the fields
  are decoded from the bytes before the chosen terminator; and an input without any
  \<^verbatim>\<open>"\n"\<close> has no terminator, which is the failure \<open>MissingLineTerminator\<close>. The
  choice is that of \<open>extract_line\<close>, for every input; the constructor comes to it
  after the length guard of claim C3, and from 15 bytes on its result is the failure of
  the choice or the fields decoded from the chosen line.
\<close>

theorem C2_terminator_selection:
  "((\<exists>j. occurs_at CRLF x j) \<longrightarrow>
      (\<exists>i. first_at CRLF x i \<and> extract_line x = Inr (take i x, i, True)))
   \<and> ((\<forall>j. \<not> occurs_at CRLF x j) \<and> (\<exists>j. occurs_at [LF] x j) \<longrightarrow>
      (\<exists>i. first_at [LF] x i \<and> extract_line x = Inr (take i x, i, False)))
   \<and> (LF \<notin> set x \<longrightarrow> extract_line x = Inl MissingLineTerminator)
   \<and> (15 \<le> length x \<longrightarrow>
      Request_line dm x =
        (case extract_line x of Inl e \<Rightarrow> Inl e | Inr (line, i, c) \<Rightarrow> decode_fields dm line))"
proof (intro conjI impI)
  assume "\<exists>j. occurs_at CRLF x j"
  then show "\<exists>i. first_at CRLF x i \<and> extract_line x = Inr (take i x, i, True)"
    using extract_line_CRLF by blast
next
  assume "(\<forall>j. \<not> occurs_at CRLF x j) \<and> (\<exists>j. occurs_at [LF] x j)"
  then show "\<exists>i. first_at [LF] x i \<and> extract_line x = Inr (take i x, i, False)"
    using extract_line_LF by blast
next
  assume "LF \<notin> set x"
  then show "extract_line x = Inl MissingLineTerminator" by (rule extract_line_none)
next
  assume len: "15 \<le> length x"
  show "Request_line dm x =
        (case extract_line x of Inl e \<Rightarrow> Inl e | Inr (line, i, c) \<Rightarrow> decode_fields dm line)"
  proof (cases "extract_line x")
    case (Inl e)
    with Request_line_no_terminator [OF len Inl] show ?thesis by simp
  next
    case (Inr r)
    obtain line i c where "r = (line, i, c)" by (cases r) auto
    with Inr Request_line_eq [OF len, of line i c dm] show ?thesis by simp
  qed
qed

theorem C2_witness:
  "15 \<le> length ([LF, LF] @ ''GET / HTTP/1.1'' @ CRLF)
   \<and> occurs_at [LF] ([LF, LF] @ ''GET / HTTP/1.1'' @ CRLF) 0
   \<and> occurs_at CRLF ([LF, LF] @ ''GET / HTTP/1.1'' @ CRLF) 16
   \<and> (\<exists>i. first_at CRLF ([LF, LF] @ ''GET / HTTP/1.1'' @ CRLF) i
          \<and> extract_line ([LF, LF] @ ''GET / HTTP/1.1'' @ CRLF)
              = Inr (take i ([LF, LF] @ ''GET / HTTP/1.1'' @ CRLF), i, True))
   \<and> extract_line ([LF, LF] @ ''GET / HTTP/1.1'' @ CRLF)
        = Inr ([LF, LF] @ ''GET / HTTP/1.1'', 16, True)
   \<and> Request_line LP64 ([LF, LF] @ ''GET / HTTP/1.1'' @ CRLF)
        = decode_fields LP64 ([LF, LF] @ ''GET / HTTP/1.1'')"
proof -
  have len: "15 \<le> length ([LF, LF] @ ''GET / HTTP/1.1'' @ CRLF)" by simp
  have lf: "occurs_at [LF] ([LF, LF] @ ''GET / HTTP/1.1'' @ CRLF) 0"
    by (simp add: occurs_at_def)
  have crlf: "occurs_at CRLF ([LF, LF] @ ''GET / HTTP/1.1'' @ CRLF) 16"
    by (simp add: occurs_at_def)
  have ex: "extract_line ([LF, LF] @ ''GET / HTTP/1.1'' @ CRLF)
        = Inr ([LF, LF] @ ''GET / HTTP/1.1'', 16, True)"
    by (simp add: extract_line_def)
  note c2 = C2_terminator_selection [of "[LF, LF] @ ''GET / HTTP/1.1'' @ CRLF" LP64]
  from c2 crlf
  have 1: "\<exists>i. first_at CRLF ([LF, LF] @ ''GET / HTTP/1.1'' @ CRLF) i
          \<and> extract_line ([LF, LF] @ ''GET / HTTP/1.1'' @ CRLF)
              = Inr (take i ([LF, LF] @ ''GET / HTTP/1.1'' @ CRLF), i, True)"
    by blast
  from c2 len
  have "Request_line LP64 ([LF, LF] @ ''GET / HTTP/1.1'' @ CRLF) =
        (case extract_line ([LF, LF] @ ''GET / HTTP/1.1'' @ CRLF) of
           Inl e \<Rightarrow> Inl e | Inr (line, i, c) \<Rightarrow> decode_fields LP64 line)"
    by blast
  then have 2: "Request_line LP64 ([LF, LF] @ ''GET / HTTP/1.1'' @ CRLF)
        = decode_fields LP64 ([LF, LF] @ ''GET / HTTP/1.1'')"
    by (simp only: ex sum.case prod.case)
  from len lf crlf 1 ex 2 show ?thesis by blast
qed

subsection \<open>C3: the minimum length\<close>

text \<open>
  Claim C3. Every input shorter than 15 bytes, the empty one included, fails with
  \<open>InputTooShort\<close>, whatever it contains: the guard comes before the search for a
  terminator, so neither a well-shaped short line nor a short input without a terminator
  is reported in another way.
\<close>

theorem C3_input_too_short:
  assumes "length x < 15"
  shows "Request_line dm x = Inl InputTooShort"
  using assms by (simp add: Request_line_def Request_line_body_def)

theorem C3_witness:
  "length (''GET /'' @ CRLF) < 15 \<and> extract_line (''GET /'' @ CRLF) = Inr (''GET /'', 5, True)
   \<and> Request_line LP64 (''GET /'' @ CRLF) = Inl InputTooShort"
proof -
  have len: "length (''GET /'' @ CRLF) < 15" by simp
  have "extract_line (''GET /'' @ CRLF) = Inr (''GET /'', 5, True)"
    by (simp add: extract_line_def)
  with len C3_input_too_short [OF len, of LP64] show ?thesis by blast
qed

subsection \<open>C4: the resume offset\<close>

text \<open>
  Claim C4 says that the caller receives, with the request line, the offset of the first
  byte after the terminator. The constructor computes that position (index plus 2 after
  \<^verbatim>\<open>"\r\n"\<close>, index plus 1 after a bare \<^verbatim>\<open>"\n"\<close>) and assigns the trimmed view to
  its parameter \<^verbatim>\<open>request\<close>, under the comment \<^verbatim>\<open>Trim the request for further
  processing\<close>; the parameter is a copy, so the caller is left with the object alone. At
  the two inputs below the constructor's own view ends as the bytes from offset 16 and from
  offset 15, and what the caller obtains is the same object in both cases.
\<close>

theorem C4_resume_offset_discarded:
  "Request_line_body LP64 (''GET / HTTP/1.1'' @ CRLF @ ''Host: x'' @ CRLF @ CRLF)
      = Inr (Request_line_default, ''Host: x'' @ CRLF @ CRLF)
   \<and> Request_line_body LP64 (''GET / HTTP/1.1'' @ [LF] @ ''Host: x'' @ [LF, LF])
      = Inr (Request_line_default, ''Host: x'' @ [LF, LF])
   \<and> Request_line LP64 (''GET / HTTP/1.1'' @ CRLF @ ''Host: x'' @ CRLF @ CRLF)
      = Inr Request_line_default
   \<and> Request_line LP64 (''GET / HTTP/1.1'' @ [LF] @ ''Host: x'' @ [LF, LF])
      = Inr Request_line_default"
proof -
  have 1: "Request_line_body LP64 (''GET / HTTP/1.1'' @ CRLF @ ''Host: x'' @ CRLF @ CRLF)
      = Inr (Request_line_default, ''Host: x'' @ CRLF @ CRLF)"
  proof -
    have len: "15 \<le> length (''GET / HTTP/1.1'' @ CRLF @ ''Host: x'' @ CRLF @ CRLF)" by simp
    have ex: "extract_line (''GET / HTTP/1.1'' @ CRLF @ ''Host: x'' @ CRLF @ CRLF)
        = Inr (''GET / HTTP/1.1'', 14, True)"
      by (simp add: extract_line_def)
    from Request_line_body_GET_1_1 [OF len ex, of LP64] show ?thesis by simp
  qed
  have 2: "Request_line_body LP64 (''GET / HTTP/1.1'' @ [LF] @ ''Host: x'' @ [LF, LF])
      = Inr (Request_line_default, ''Host: x'' @ [LF, LF])"
  proof -
    have len: "15 \<le> length (''GET / HTTP/1.1'' @ [LF] @ ''Host: x'' @ [LF, LF])" by simp
    have ex: "extract_line (''GET / HTTP/1.1'' @ [LF] @ ''Host: x'' @ [LF, LF])
        = Inr (''GET / HTTP/1.1'', 14, False)"
      by (simp add: extract_line_def)
    from Request_line_body_GET_1_1 [OF len ex, of LP64] show ?thesis by simp
  qed
  from 1 2 Request_line_of_body [OF 1] Request_line_of_body [OF 2] show ?thesis by blast
qed

subsection \<open>C5: a token that is no method\<close>

text \<open>
  Claim C5 says that a line of the right shape whose first token is none of the eight
  method tokens fails with \<open>UnknownMethod\<close>. The pattern of line 195 lists the eight
  tokens itself, so such a line fails the match of line 202 before
  \<^verbatim>\<open>method::code\<close> is reached: the error is \<open>GrammarMismatch\<close>, here for
  \<^verbatim>\<open>"FOO / HTTP/1.1\r\n"\<close>.
\<close>

theorem C5_counterexample:
  "Request_line LP64 (''FOO / HTTP/1.1'' @ CRLF) = Inl GrammarMismatch
   \<and> Request_line LP64 (''FOO / HTTP/1.1'' @ CRLF) \<noteq> Inl UnknownMethod"
proof -
  have len: "15 \<le> length (''FOO / HTTP/1.1'' @ CRLF)" by simp
  have ex: "extract_line (''FOO / HTTP/1.1'' @ CRLF) = Inr (''FOO / HTTP/1.1'', 14, True)"
    by (simp add: extract_line_def)
  have sh: "request_line_shape ''FOO / HTTP/1.1'' [] ''FOO'' ''/'' ''1'' ''1''"
    by (simp add: request_line_shape_def is_space_def is_digit_def)
  have tok: "''FOO'' \<notin> set method_tokens" by (simp add: method_tokens_def)
  from shape_unknown_token [OF sh tok] have "regex_match ''FOO / HTTP/1.1'' = None"
    by (simp add: regex_match_None_iff)
  then have "decode_fields LP64 ''FOO / HTTP/1.1'' = Inl GrammarMismatch"
    by (simp add: decode_fields_def)
  with Request_line_eq [OF len ex, of LP64] show ?thesis by simp
qed

text \<open>
  Claim C5, amended. For every input of at least 15 bytes with a terminator whose line has
  the shape of a request line (white space, a token, one space, a target, one space,
  \<^verbatim>\<open>HTTP/\<close>, digits, a dot, digits) but whose token is not byte for byte one of the
  eight method tokens, the construction fails with \<open>GrammarMismatch\<close>; no method is
  substituted and no case is normalised.
\<close>

theorem C5_unknown_method_amended:
  assumes "15 \<le> length x" and "extract_line x = Inr (line, i, c)"
    and "request_line_shape line ws tok t a b" and "tok \<notin> set method_tokens"
  shows "Request_line dm x = Inl GrammarMismatch"
proof -
  have "\<not> request_line_grammar line" by (rule shape_unknown_token [OF assms(3,4)])
  then have "decode_fields dm line = Inl GrammarMismatch"
    by (simp add: decode_fields_GrammarMismatch_iff regex_match_None_iff)
  with Request_line_eq [OF assms(1,2), of dm] show ?thesis by simp
qed

theorem C5_witness:
  "15 \<le> length (''get / HTTP/1.1'' @ CRLF)
   \<and> extract_line (''get / HTTP/1.1'' @ CRLF) = Inr (''get / HTTP/1.1'', 14, True)
   \<and> request_line_shape ''get / HTTP/1.1'' [] ''get'' ''/'' ''1'' ''1''
   \<and> ''get'' \<notin> set method_tokens
   \<and> Request_line LP64 (''get / HTTP/1.1'' @ CRLF) = Inl GrammarMismatch"
proof -
  have len: "15 \<le> length (''get / HTTP/1.1'' @ CRLF)" by simp
  have ex: "extract_line (''get / HTTP/1.1'' @ CRLF) = Inr (''get / HTTP/1.1'', 14, True)"
    by (simp add: extract_line_def)
  have sh: "request_line_shape ''get / HTTP/1.1'' [] ''get'' ''/'' ''1'' ''1''"
    by (simp add: request_line_shape_def is_space_def is_digit_def)
  have tok: "''get'' \<notin> set method_tokens" by (simp add: method_tokens_def)
  from C5_unknown_method_amended [OF len ex sh tok, of LP64] len ex sh tok show ?thesis by blast
qed

subsection \<open>C6: version numbers beyond 32 bits\<close>

text \<open>
  Claim C6 says that a digit run whose value does not fit 32 bits makes the construction
  fail. Lines 210 and 211 convert with \<^verbatim>\<open>std::stoul\<close>, whose range is that of
  \<^verbatim>\<open>unsigned long\<close>, and narrow the result to \<^verbatim>\<open>unsigned\<close> with a cast. Where
  \<^verbatim>\<open>unsigned long\<close> has 64 bits the major number 4294967297 is accepted and stored
  as 1; where it has 32 bits the same input is refused.
\<close>

theorem C6_version_wraps:
  "Request_line LP64 (''GET / HTTP/4294967297.1'' @ CRLF)
     = Inr \<lparr>method_m = GET, uri_m = ''/'', version_m = \<lparr>major = 1, minor = 1\<rparr>\<rparr>
   \<and> Request_line ILP32 (''GET / HTTP/4294967297.1'' @ CRLF) = Inl InvalidVersionNumber"
proof -
  have len: "15 \<le> length (''GET / HTTP/4294967297.1'' @ CRLF)" by simp
  have ex: "extract_line (''GET / HTTP/4294967297.1'' @ CRLF) = Inr (''GET / HTTP/4294967297.1'', 23, True)"
    by (simp add: extract_line_def)
  have sh: "request_line_shape ''GET / HTTP/4294967297.1'' [] ''GET'' ''/'' ''4294967297'' ''1''"
    by (simp add: request_line_shape_def is_space_def is_digit_def)
  have va: "digits_val ''4294967297'' = 4294967297"
    by (simp add: digits_val_def digit_val_def)
  from Request_line_shape [OF len ex sh code_GET, of LP64]
  have 1: "Request_line LP64 (''GET / HTTP/4294967297.1'' @ CRLF)
     = Inr \<lparr>method_m = GET, uri_m = ''/'', version_m = \<lparr>major = 1, minor = 1\<rparr>\<rparr>"
    by (simp add: va digits_val_1)
  from Request_line_shape [OF len ex sh code_GET, of ILP32]
  have 2: "Request_line ILP32 (''GET / HTTP/4294967297.1'' @ CRLF) = Inl InvalidVersionNumber"
    by (simp add: va digits_val_1)
  from 1 2 show ?thesis by blast
qed

subsection \<open>C7: rendering\<close>

text \<open>
  Claim C7. \<^verbatim>\<open>to_string\<close> of a request line is the method token, a space, the target,
  a space, \<^verbatim>\<open>HTTP/\<close>, the major number, a dot, the minor number and
  \<^verbatim>\<open>"\r\n"\<close>, whatever terminator the value was read from: the default value renders as
  \<^verbatim>\<open>"GET / HTTP/1.1\r\n"\<close>, and the value read from \<^verbatim>\<open>"POST /api HTTP/1.0\n"\<close>
  renders with \<^verbatim>\<open>"\r\n"\<close> at its end.
\<close>

theorem C7_render:
  "to_string rl = str (method_m rl) @ '' '' @ uri_m rl @ '' HTTP/''
      @ dec (unat (major (version_m rl))) @ ''.'' @ dec (unat (minor (version_m rl))) @ CRLF
   \<and> to_string Request_line_default = ''GET / HTTP/1.1'' @ CRLF
   \<and> Request_line dm (''POST /api HTTP/1.0'' @ [LF])
       = Inr \<lparr>method_m = POST, uri_m = ''/api'', version_m = \<lparr>major = 1, minor = 0\<rparr>\<rparr>
   \<and> to_string \<lparr>method_m = POST, uri_m = ''/api'', version_m = \<lparr>major = 1, minor = 0\<rparr>\<rparr>
       = ''POST /api HTTP/1.0'' @ CRLF"
proof -
  have len: "15 \<le> length (''POST /api HTTP/1.0'' @ [LF])" by simp
  have ex: "extract_line (''POST /api HTTP/1.0'' @ [LF]) = Inr (''POST /api HTTP/1.0'', 18, False)"
    by (simp add: extract_line_def)
  have sh: "request_line_shape ''POST /api HTTP/1.0'' [] ''POST'' ''/api'' ''1'' ''0''"
    by (simp add: request_line_shape_def is_space_def is_digit_def)
  have cd: "code ''POST'' = Inr POST" by (simp add: code_def)
  have v0: "digits_val ''0'' = 0" by (simp add: digits_val_def digit_val_def)
  from Request_line_shape [OF len ex sh cd, of dm] ULONG_MAX_ge [of dm]
  have 1: "Request_line dm (''POST /api HTTP/1.0'' @ [LF])
       = Inr \<lparr>method_m = POST, uri_m = ''/api'', version_m = \<lparr>major = 1, minor = 0\<rparr>\<rparr>"
    by (simp add: digits_val_1 v0)
  have 2: "to_string \<lparr>method_m = POST, uri_m = ''/api'', version_m = \<lparr>major = 1, minor = 0\<rparr>\<rparr>
       = ''POST /api HTTP/1.0'' @ CRLF"
    by (simp add: to_string_eq dec_1 dec_0)
  from to_string_eq [of rl] to_string_default 1 2 show ?thesis by blast
qed

subsection \<open>C8: rendering what was read\<close>

text \<open>
  Claim C8 says that rendering the value read from an input \<open>x\<close> with terminator
  \<^verbatim>\<open>"\r\n"\<close> gives \<open>x\<close> back. The constructor accepts white space before the
  method, digit runs with leading zeros and any bytes after the terminator, and
  \<^verbatim>\<open>to_string\<close> reproduces none of them: each of the three inputs below is read as
  the default request line, whose rendering differs from the input.
\<close>

theorem C8_counterexample:
  "Request_line LP64 ('' GET / HTTP/1.1'' @ CRLF) = Inr Request_line_default
   \<and> to_string Request_line_default \<noteq> '' GET / HTTP/1.1'' @ CRLF
   \<and> Request_line LP64 (''GET / HTTP/01.1'' @ CRLF) = Inr Request_line_default
   \<and> to_string Request_line_default \<noteq> ''GET / HTTP/01.1'' @ CRLF
   \<and> Request_line LP64 (''GET / HTTP/1.1'' @ CRLF @ ''Host: x'' @ CRLF @ CRLF) = Inr Request_line_default
   \<and> to_string Request_line_default \<noteq> ''GET / HTTP/1.1'' @ CRLF @ ''Host: x'' @ CRLF @ CRLF"
proof -
  have 1: "Request_line LP64 ('' GET / HTTP/1.1'' @ CRLF) = Inr Request_line_default"
  proof -
    have len: "15 \<le> length ('' GET / HTTP/1.1'' @ CRLF)" by simp
    have ex: "extract_line ('' GET / HTTP/1.1'' @ CRLF) = Inr ('' GET / HTTP/1.1'', 15, True)"
      by (simp add: extract_line_def)
    have sh: "request_line_shape '' GET / HTTP/1.1'' '' '' ''GET'' ''/'' ''1'' ''1''"
      by (simp add: request_line_shape_def is_space_def is_digit_def)
    from Request_line_shape [OF len ex sh code_GET, of LP64] show ?thesis
      by (simp add: digits_val_1 Request_line_default_def)
  qed
  have 2: "Request_line LP64 (''GET / HTTP/01.1'' @ CRLF) = Inr Request_line_default"
  proof -
    have len: "15 \<le> length (''GET / HTTP/01.1'' @ CRLF)" by simp
    have ex: "extract_line (''GET / HTTP/01.1'' @ CRLF) = Inr (''GET / HTTP/01.1'', 15, True)"
      by (simp add: extract_line_def)
    have sh: "request_line_shape ''GET / HTTP/01.1'' [] ''GET'' ''/'' ''01'' ''1''"
      by (simp add: request_line_shape_def is_space_def is_digit_def)
    have v: "digits_val ''01'' = 1" by (simp add: digits_val_def digit_val_def)
    from Request_line_shape [OF len ex sh code_GET, of LP64] show ?thesis
      by (simp add: digits_val_1 v Request_line_default_def)
  qed
  have 3: "Request_line LP64 (''GET / HTTP/1.1'' @ CRLF @ ''Host: x'' @ CRLF @ CRLF) = Inr Request_line_default"
  proof -
    have len: "15 \<le> length (''GET / HTTP/1.1'' @ CRLF @ ''Host: x'' @ CRLF @ CRLF)" by simp
    have ex: "extract_line (''GET / HTTP/1.1'' @ CRLF @ ''Host: x'' @ CRLF @ CRLF)
        = Inr (''GET / HTTP/1.1'', 14, True)"
      by (simp add: extract_line_def)
    show ?thesis by (rule Request_line_GET_1_1 [OF len ex])
  qed
  from 1 2 3 show ?thesis by (simp add: to_string_default)
qed

text \<open>
  Claim C8, amended. Let an input be read successfully, and let its line, the bytes
  before the terminator, start with the method (no white space before it) and have digit
  runs that are the decimal numerals, without superfluous leading zeros, of numbers below
  \<open>2 ^ 32\<close>. Then the rendering of the value read is the line followed by
  \<^verbatim>\<open>"\r\n"\<close>: with the terminator \<^verbatim>\<open>"\r\n"\<close> it is the input up to and including
  the terminator, and with a bare \<^verbatim>\<open>"\n"\<close> it differs from that prefix of the input in
  the terminator only.
\<close>

theorem C8_roundtrip_amended:
  assumes "Request_line dm x = Inr rl" and "extract_line x = Inr (line, i, c)"
    and "request_line_shape line [] m t a b"
    and "dec (digits_val a) = a" and "digits_val a < 2 ^ 32"
    and "dec (digits_val b) = b" and "digits_val b < 2 ^ 32"
  shows "to_string rl = line @ CRLF
     \<and> (c \<longrightarrow> take (i + 2) x = line @ CRLF)
     \<and> (\<not> c \<longrightarrow> take (i + 1) x = line @ [LF])"
proof (intro conjI impI)
  from Request_line_Inr_shape [OF assms(1,2,3)]
  have f: "str (method_m rl) = m" "uri_m rl = t"
    "major (version_m rl) = of_nat (digits_val a)" "minor (version_m rl) = of_nat (digits_val b)"
    by simp_all
  have "line = m @ '' '' @ t @ '' HTTP/'' @ a @ ''.'' @ b"
    using assms(3) by (simp add: request_line_shape_def)
  moreover have "unat (of_nat (digits_val a) :: 32 word) = digits_val a"
    by (rule unat_of_nat_32 [OF assms(5)])
  moreover have "unat (of_nat (digits_val b) :: 32 word) = digits_val b"
    by (rule unat_of_nat_32 [OF assms(7)])
  ultimately show "to_string rl = line @ CRLF"
    by (simp add: to_string_eq f assms(4,6))
next
  assume c
  with extract_line_Inr [OF assms(2)] have "line = take i x" "first_at CRLF x i" by simp_all
  with take_terminator [of CRLF x i] show "take (i + 2) x = line @ CRLF" by simp
next
  assume "\<not> c"
  with extract_line_Inr [OF assms(2)] have "line = take i x" "first_at [LF] x i" by simp_all
  with take_terminator [of "[LF]" x i] show "take (i + 1) x = line @ [LF]" by simp
qed

theorem C8_witness:
  "Request_line LP64 (''GET / HTTP/1.1'' @ CRLF @ ''Host: x'' @ CRLF @ CRLF) = Inr Request_line_default
   \<and> extract_line (''GET / HTTP/1.1'' @ CRLF @ ''Host: x'' @ CRLF @ CRLF)
        = Inr (''GET / HTTP/1.1'', 14, True)
   \<and> request_line_shape ''GET / HTTP/1.1'' [] ''GET'' ''/'' ''1'' ''1''
   \<and> dec (digits_val ''1'') = ''1'' \<and> digits_val ''1'' < 2 ^ 32
   \<and> to_string Request_line_default = ''GET / HTTP/1.1'' @ CRLF
   \<and> take (14 + 2) (''GET / HTTP/1.1'' @ CRLF @ ''Host: x'' @ CRLF @ CRLF) = ''GET / HTTP/1.1'' @ CRLF"
proof -
  have len: "15 \<le> length (''GET / HTTP/1.1'' @ CRLF @ ''Host: x'' @ CRLF @ CRLF)" by simp
  have ex: "extract_line (''GET / HTTP/1.1'' @ CRLF @ ''Host: x'' @ CRLF @ CRLF)
      = Inr (''GET / HTTP/1.1'', 14, True)"
    by (simp add: extract_line_def)
  have ok: "Request_line LP64 (''GET / HTTP/1.1'' @ CRLF @ ''Host: x'' @ CRLF @ CRLF) = Inr Request_line_default"
    by (rule Request_line_GET_1_1 [OF len ex])
  have d: "dec (digits_val ''1'') = ''1''" by (simp add: digits_val_1 dec_1)
  have l: "digits_val ''1'' < 2 ^ 32" by (simp add: digits_val_1)
  from C8_roundtrip_amended [OF ok ex shape_GET_1_1 d l d l] ok ex shape_GET_1_1 d l
  show ?thesis by blast
qed

subsection \<open>C9: reading what was rendered\<close>

text \<open>
  Claim C9. For every request line whose target is non-empty and free of white space, the
  constructor applied to the bytes of \<^verbatim>\<open>to_string\<close> succeeds and yields the same
  method, target and version.
\<close>

theorem C9_parse_render:
  assumes "uri_m rl \<noteq> []" and "list_all (\<lambda>c. \<not> is_space c) (uri_m rl)"
  shows "Request_line dm (to_string rl) = Inr rl"
proof -
  define line where "line = str (method_m rl) @ '' '' @ uri_m rl @ '' HTTP/''
        @ dec (unat (major (version_m rl))) @ ''.'' @ dec (unat (minor (version_m rl)))"
  have ts: "to_string rl = line @ CRLF @ []" by (simp add: to_string_eq line_def)
  have sh: "request_line_shape line [] (str (method_m rl)) (uri_m rl)
     (dec (unat (major (version_m rl)))) (dec (unat (minor (version_m rl))))"
    unfolding line_def by (rule render_shape [OF assms])
  have ex: "extract_line (line @ CRLF @ []) = Inr (line, length line, True)"
    by (rule extract_line_CRLF_end [OF shape_no_LF [OF sh]])
  have len: "15 \<le> length (line @ CRLF @ [])"
    using shape_length [OF sh] length_str [of "method_m rl"] by simp
  have a: "unat (major (version_m rl)) \<le> ULONG_MAX dm"
    using ULONG_MAX_ge [of dm] unsigned_less [of "major (version_m rl)", where 'a = nat] by simp
  have b: "unat (minor (version_m rl)) \<le> ULONG_MAX dm"
    using ULONG_MAX_ge [of dm] unsigned_less [of "minor (version_m rl)", where 'a = nat] by simp
  have "Request_line dm (to_string rl) =
     (if ULONG_MAX dm < digits_val (dec (unat (major (version_m rl))))
         \<or> ULONG_MAX dm < digits_val (dec (unat (minor (version_m rl))))
      then Inl InvalidVersionNumber
      else Inr \<lparr>method_m = method_m rl, uri_m = uri_m rl,
               version_m = \<lparr>major = of_nat (digits_val (dec (unat (major (version_m rl))))),
                              minor = of_nat (digits_val (dec (unat (minor (version_m rl)))))\<rparr>\<rparr>)"
    unfolding ts by (rule Request_line_shape [OF len ex sh code_str])
  with a b show ?thesis by (simp add: digits_val_dec)
qed

theorem C9_witness:
  "uri_m Request_line_default \<noteq> [] \<and> list_all (\<lambda>c. \<not> is_space c) (uri_m Request_line_default)
   \<and> Request_line LP64 (''GET / HTTP/1.1'' @ CRLF) = Inr Request_line_default"
proof -
  have 1: "uri_m Request_line_default \<noteq> []" by (simp add: Request_line_default_def)
  have 2: "list_all (\<lambda>c. \<not> is_space c) (uri_m Request_line_default)"
    by (simp add: Request_line_default_def is_space_def)
  from C9_parse_render [OF 1 2, of LP64] have "Request_line LP64 (''GET / HTTP/1.1'' @ CRLF) = Inr Request_line_default"
    by (simp only: to_string_default)
  with 1 2 show ?thesis by blast
qed

subsection \<open>C10: the setters and accessors\<close>

text \<open>
  Claim C10. Each setter replaces its own member and leaves the other two as they were,
  and the accessors \<^verbatim>\<open>method()\<close>, \<^verbatim>\<open>uri() const\<close> and \<^verbatim>\<open>version()\<close> return
  their member and leave the object unchanged.
\<close>

theorem C10_setters_frame:
  "method_m (set_method m rl) = m \<and> uri_m (set_method m rl) = uri_m rl
     \<and> version_m (set_method m rl) = version_m rl
   \<and> uri_m (set_uri u rl) = u \<and> method_m (set_uri u rl) = method_m rl
     \<and> version_m (set_uri u rl) = version_m rl
   \<and> version_m (set_version v rl) = v \<and> method_m (set_version v rl) = method_m rl
     \<and> uri_m (set_version v rl) = uri_m rl
   \<and> method_get rl = (method_m rl, rl) \<and> uri rl = (uri_m rl, rl) \<and> version rl = (version_m rl, rl)"
  by (simp add: set_method_def set_uri_def set_version_def method_get_def uri_def version_def)

end
